theory Spec2Isabelle
  imports Main "HOL-Library.Word" "HOL-Library.Sublist"
begin

section \<open>JavaScript strings\<close>

text \<open>
  A JavaScript string is a finite sequence of UTF-16 code units. The string methods that
  \<^verbatim>\<open>splitNoteByDelimiter\<close> calls (\<^verbatim>\<open>replace\<close> with a non-unicode regular expression,
  \<^verbatim>\<open>split\<close> with a string separator, \<^verbatim>\<open>trim\<close>, \<^verbatim>\<open>includes\<close>, \<^verbatim>\<open>+\<close>) all work on code units.
\<close>

type_synonym jschar = "16 word"
type_synonym jstring = "jschar list"

definition lit :: "string \<Rightarrow> jstring" where
  "lit s = map of_char s"

definition backslash :: jschar where "backslash = 0x5C"
definition letter_n :: jschar where "letter_n = 0x6E"
definition newline :: jschar where "newline = 0x0A"

text \<open>
  \<^verbatim>\<open>String.prototype.trim\<close> removes the code units of the ECMAScript productions WhiteSpace
  (TAB, VT, FF, SP, NBSP, ZWNBSP and the other space separators of Unicode) and
  LineTerminator (LF, CR, LS, PS) from both ends.
\<close>

definition isWhiteSpace :: "jschar \<Rightarrow> bool" where
  "isWhiteSpace c \<longleftrightarrow>
     c \<in> {0x0009, 0x000A, 0x000B, 0x000C, 0x000D, 0x0020, 0x00A0, 0x1680,
          0x2000, 0x2001, 0x2002, 0x2003, 0x2004, 0x2005, 0x2006, 0x2007, 0x2008, 0x2009,
          0x200A, 0x2028, 0x2029, 0x202F, 0x205F, 0x3000, 0xFEFF}"

definition str_trim :: "jstring \<Rightarrow> jstring" where
  "str_trim s = rev (dropWhile isWhiteSpace (rev (dropWhile isWhiteSpace s)))"

text \<open>
  \<^verbatim>\<open>s.split(sep)\<close> with a string separator and no limit. The text is scanned from the left;
  at the first position where \<open>sep\<close> occurs the current segment ends and the scan resumes
  behind that occurrence. With the empty separator the result is the list of the code units.
\<close>

function splitOn :: "'a list \<Rightarrow> 'a list \<Rightarrow> 'a list list" where
  "splitOn sep [] = [[]]"
| "splitOn sep (c # cs) =
     (if sep \<noteq> [] \<and> prefix sep (c # cs)
      then [] # splitOn sep (drop (length sep) (c # cs))
      else (case splitOn sep cs of
              [] \<Rightarrow> [[c]]
            | seg # segs \<Rightarrow> (c # seg) # segs))"
  by pat_completeness auto
termination
  by (relation "measure (\<lambda>(sep, s). length s)") auto

definition str_split :: "'a list \<Rightarrow> 'a list \<Rightarrow> 'a list list" where
  "str_split s sep = (if sep = [] then map (\<lambda>c. [c]) s else splitOn sep s)"

text \<open>\<^verbatim>\<open>s.includes(t)\<close>: \<open>t\<close> occurs in \<open>s\<close> as a contiguous run of code units.\<close>

definition str_includes :: "jstring \<Rightarrow> jstring \<Rightarrow> bool" where
  "str_includes s t = sublist t s"

text \<open>\<^verbatim>\<open>xs.join(sep)\<close>, used to state what \<^verbatim>\<open>split\<close> and \<^verbatim>\<open>replace\<close> compute.\<close>

fun joinWith :: "'a list \<Rightarrow> 'a list list \<Rightarrow> 'a list" where
  "joinWith sep [] = []"
| "joinWith sep [x] = x"
| "joinWith sep (x # y # ys) = x @ sep @ joinWith sep (y # ys)"

text \<open>
  Conversion of an integral Number to a string, as string concatenation and template
  literals perform it: decimal digits, with a leading minus sign for a negative value.
  The numbers that reach it (a count of files, \<^verbatim>\<open>Date.now() + i\<close>) are integers far below
  \<open>2^53\<close>, where Number arithmetic is exact and no exponent notation is used.
\<close>

fun digitsOf :: "nat \<Rightarrow> jstring" where
  "digitsOf n =
     (if n < 10 then [of_nat (48 + n)]
      else digitsOf (n div 10) @ [of_nat (48 + n mod 10)])"

definition numberToString :: "int \<Rightarrow> jstring" where
  "numberToString k = (if k < 0 then lit ''-'' @ digitsOf (nat (- k)) else digitsOf (nat k))"

section \<open>Delimiter and partition\<close>

text \<open>
  Line 61: \<^verbatim>\<open>delimiter.replace(/\\n/g, "\n")\<close>. The pattern matches a backslash followed by
  the letter n; with the global flag every match, found from left to right behind the
  previous one, is replaced by one line feed.
\<close>

fun escapedDelimiter :: "jstring \<Rightarrow> jstring" where
  "escapedDelimiter (a # b # cs) =
     (if a = backslash \<and> b = letter_n then newline # escapedDelimiter cs
      else a # escapedDelimiter (b # cs))"
| "escapedDelimiter [a] = [a]"
| "escapedDelimiter [] = []"

text \<open>Lines 76 to 79: split on the delimiter, trim every piece, drop the empty ones.\<close>

definition splitContent :: "jstring \<Rightarrow> jstring \<Rightarrow> jstring list" where
  "splitContent dataWithoutFrontmatter delim =
     filter (\<lambda>content. content \<noteq> [])
       (map (\<lambda>content. str_trim content) (str_split dataWithoutFrontmatter delim))"

section \<open>The plugin and its host\<close>

record NoteSplitterSettings =
  saveFolderPath :: jstring
  useContentAsTitle :: bool
  delimiter :: jstring
  appendToSplitContent :: jstring
  deleteOriginalNote :: bool

text \<open>A thrown value: an \<^verbatim>\<open>Error\<close> object with its \<^verbatim>\<open>message\<close>.\<close>

datatype error = Error jstring

text \<open>
  What one run does to the outside world, in the order in which it happens: notices shown,
  calls of the vault, lines written to the console. A call of \<^verbatim>\<open>vault.create\<close> is recorded
  with its path and content, as \<open>Created\<close> when it resolved and as \<open>CreateFailed\<close>, with the
  message of the error, when it rejected. \<open>DeleteFile\<close> is the call \<^verbatim>\<open>vault.delete(file)\<close>.
\<close>

datatype event =
    Notice jstring
  | CachedRead
  | CreateFolder jstring
  | Created jstring jstring
  | CreateFailed jstring jstring jstring
  | DeleteFile
  | ConsoleError jstring
  | ConsoleLog jstring

text \<open>The promise returned by \<^verbatim>\<open>splitNoteByDelimiter\<close> resolves, or rejects with an error.\<close>

datatype outcome = Resolved | Rejected error

text \<open>
  Everything \<^verbatim>\<open>splitNoteByDelimiter\<close> takes from outside \<^verbatim>\<open>main.ts\<close> is a field of the
  environment. The first three fields are the functions imported from \<^verbatim>\<open>./utils\<close>;
  \<open>normalizePath\<close> is Obsidian's. \<open>cachedRead\<close> is the result of
  \<^verbatim>\<open>vault.cachedRead(file)\<close> and \<open>parentPath\<close> the value of \<^verbatim>\<open>file.parent?.path\<close> (\<open>None\<close> for
  \<^verbatim>\<open>undefined\<close>). The vault answers a call of \<^verbatim>\<open>create\<close> or \<^verbatim>\<open>delete\<close> with \<open>None\<close> when the
  promise resolves and with the error when it rejects; the answer may depend on all that
  happened before. \<open>dateNow i\<close> and \<open>randomUUID i\<close> are the values that \<^verbatim>\<open>Date.now()\<close> and
  \<^verbatim>\<open>crypto.randomUUID()\<close> return in the loop iteration with index \<open>i\<close>.
\<close>

record env =
  removeFrontmatterBlock :: "jstring \<Rightarrow> jstring"
  escapeInvalidFileNameChars :: "jstring \<Rightarrow> jstring"
  trimForFileName :: "jstring \<Rightarrow> jstring \<Rightarrow> jstring"
  normalizePath :: "jstring \<Rightarrow> jstring"
  cachedRead :: "error + jstring"
  parentPath :: "jstring option"
  vaultCreate :: "event list \<Rightarrow> jstring \<Rightarrow> jstring \<Rightarrow> error option"
  vaultDelete :: "event list \<Rightarrow> error option"
  dateNow :: "nat \<Rightarrow> int"
  randomUUID :: "nat \<Rightarrow> jstring"

subsection \<open>The loop body, lines 104 to 138\<close>

definition updatedContent :: "NoteSplitterSettings \<Rightarrow> jstring \<Rightarrow> jstring" where
  "updatedContent st originalContent =
     (if length (appendToSplitContent st) > 0 then originalContent @ appendToSplitContent st
      else originalContent)"

text \<open>
  \<^verbatim>\<open>originalContent.split("\n")[0]\<close>: a split on a non-empty separator has at least one
  element (lemma \<open>str_split_not_Nil\<close> below), so the index 0 is in range.
\<close>

definition firstLine :: "jstring \<Rightarrow> jstring" where
  "firstLine originalContent = hd (str_split originalContent [newline])"

definition fileName :: "env \<Rightarrow> NoteSplitterSettings \<Rightarrow> nat \<Rightarrow> jstring \<Rightarrow> jstring" where
  "fileName h st i originalContent =
     (if useContentAsTitle st
      then trimForFileName h (escapeInvalidFileNameChars h (firstLine originalContent)) (lit ''.md'')
      else lit ''split-note-'' @ numberToString (dateNow h i + int i))"

definition filePath :: "env \<Rightarrow> NoteSplitterSettings \<Rightarrow> jstring \<Rightarrow> nat \<Rightarrow> jstring \<Rightarrow> jstring" where
  "filePath h st folderPath i originalContent =
     normalizePath h (folderPath @ lit ''/'' @ fileName h st i originalContent @ lit ''.md'')"

definition newFilePath :: "env \<Rightarrow> jstring \<Rightarrow> nat \<Rightarrow> jstring" where
  "newFilePath h folderPath i = folderPath @ lit ''/Split conflict '' @ randomUUID h i @ lit ''.md''"

definition errorNotice :: "jstring \<Rightarrow> event" where
  "errorNotice message = Notice (lit ''Error creating file: '' @ message)"

text \<open>
  One iteration, on the trace so far and the counter \<^verbatim>\<open>filesCreated\<close>. The three ways out
  of the \<^verbatim>\<open>try\<close> are: the file is created; the error says \<^verbatim>\<open>already exists\<close> and a second
  \<^verbatim>\<open>create\<close> is tried under the conflict name (\<open>retryCreate\<close>, lines 126 to 134), followed
  by \<^verbatim>\<open>continue\<close>; any other error is reported.
\<close>

fun retryCreate ::
  "env \<Rightarrow> jstring \<Rightarrow> nat \<Rightarrow> jstring \<Rightarrow> event list \<times> nat \<Rightarrow> event list \<times> nat" where
  "retryCreate h folderPath i content (tr, filesCreated) =
     (let newPath = newFilePath h folderPath i
      in case vaultCreate h tr newPath content of
           None \<Rightarrow> (tr @ [Created newPath content], filesCreated + 1)
         | Some (Error message) \<Rightarrow>
             (tr @ [CreateFailed newPath content message,
                    ConsoleError message, errorNotice message], filesCreated))"

fun createNote ::
  "env \<Rightarrow> NoteSplitterSettings \<Rightarrow> jstring \<Rightarrow> nat \<Rightarrow> jstring \<Rightarrow> event list \<times> nat \<Rightarrow> event list \<times> nat" where
  "createNote h st folderPath i originalContent (tr, filesCreated) =
     (let content = updatedContent st originalContent;
          path = filePath h st folderPath i originalContent
      in case vaultCreate h tr path content of
           None \<Rightarrow> (tr @ [Created path content], filesCreated + 1)
         | Some (Error message) \<Rightarrow>
             (if str_includes message (lit ''already exists'')
              then retryCreate h folderPath i content
                     (tr @ [CreateFailed path content message], filesCreated)
              else (tr @ [CreateFailed path content message,
                          errorNotice message, ConsoleLog message], filesCreated)))"

text \<open>The \<^verbatim>\<open>for\<close> loop over \<^verbatim>\<open>splitContent.entries()\<close>, from index \<open>i\<close> on.\<close>

fun writeNotes ::
  "env \<Rightarrow> NoteSplitterSettings \<Rightarrow> jstring \<Rightarrow> nat \<Rightarrow> jstring list \<Rightarrow> event list \<times> nat \<Rightarrow> event list \<times> nat" where
  "writeNotes h st folderPath i [] s = s"
| "writeNotes h st folderPath i (originalContent # rest) s =
     writeNotes h st folderPath (Suc i) rest (createNote h st folderPath i originalContent s)"

subsection \<open>The whole operation, lines 57 to 148\<close>

text \<open>\<^verbatim>\<open>(saveFolderPath || file.parent?.path) ?? ""\<close>\<close>

definition folderPathOf :: "env \<Rightarrow> NoteSplitterSettings \<Rightarrow> jstring" where
  "folderPathOf h st =
     (if saveFolderPath st \<noteq> [] then saveFolderPath st
      else case parentPath h of Some p \<Rightarrow> p | None \<Rightarrow> [])"

definition summaryText :: "nat \<Rightarrow> jstring" where
  "summaryText filesCreated =
     lit ''Split into '' @ numberToString (int filesCreated) @ lit '' note''
       @ (if filesCreated > 1 then lit ''s'' else []) @ lit ''.''"

definition noDelimiterText :: jstring where
  "noDelimiterText = lit ''No delimiter set. Please set a delimiter in the settings.''"

definition noContentText :: jstring where
  "noContentText = lit ''No content to split.''"

definition oneSectionText :: jstring where
  "oneSectionText = lit ''Only one section of content found. Nothing to split.''"

text \<open>
  Lines 141 to 147, on the trace and the counter that the loop leaves. A rejection of
  \<^verbatim>\<open>vault.delete\<close> is not caught: it ends the function before the last notice.
\<close>

fun finish ::
  "env \<Rightarrow> NoteSplitterSettings \<Rightarrow> nat \<Rightarrow> event list \<times> nat \<Rightarrow> event list \<times> outcome" where
  "finish h st fragments (tr, filesCreated) =
     (if filesCreated = fragments \<and> deleteOriginalNote st
      then (case vaultDelete h tr of
              Some e \<Rightarrow> (tr @ [DeleteFile], Rejected e)
            | None \<Rightarrow> (tr @ [DeleteFile, Notice (summaryText filesCreated)], Resolved))
      else (tr @ [Notice (summaryText filesCreated)], Resolved))"

text \<open>
  Lines 58 to 89: everything before the first write. The result is either the end of the
  run (\<open>Inl\<close>: delimiter empty, read rejected, nothing or only one section to split) or
  the list \<^verbatim>\<open>splitContent\<close> of at least two parts (\<open>Inr\<close>).
\<close>

definition prepare :: "env \<Rightarrow> NoteSplitterSettings \<Rightarrow> (event list \<times> outcome) + jstring list" where
  "prepare h st =
     (let delim = escapedDelimiter (delimiter st) in
      if delim = [] then Inl ([Notice noDelimiterText], Resolved)
      else case cachedRead h of
        Inl e \<Rightarrow> Inl ([CachedRead], Rejected e)
      | Inr data \<Rightarrow>
          let dataWithoutFrontmatter = removeFrontmatterBlock h data in
          if dataWithoutFrontmatter = [] then Inl ([CachedRead, Notice noContentText], Resolved)
          else let parts = splitContent dataWithoutFrontmatter delim in
            if length parts = 0 then Inl ([CachedRead, Notice noContentText], Resolved)
            else if length parts = 1 then Inl ([CachedRead, Notice oneSectionText], Resolved)
            else Inr parts)"

text \<open>
  Lines 91 to 139: the folder is created, whatever \<^verbatim>\<open>createFolder\<close> throws is swallowed,
  and the loop runs with \<^verbatim>\<open>filesCreated = 0\<close>.
\<close>

definition writeAll :: "env \<Rightarrow> NoteSplitterSettings \<Rightarrow> jstring list \<Rightarrow> event list \<times> nat" where
  "writeAll h st parts =
     (let folderPath = folderPathOf h st
      in writeNotes h st folderPath 0 parts ([CachedRead, CreateFolder folderPath], 0))"

definition splitNoteByDelimiter :: "env \<Rightarrow> NoteSplitterSettings \<Rightarrow> event list \<times> outcome" where
  "splitNoteByDelimiter h st =
     (case prepare h st of
        Inl stop \<Rightarrow> stop
      | Inr parts \<Rightarrow> finish h st (length parts) (writeAll h st parts))"

subsection \<open>Reading a trace\<close>

text \<open>The calls of \<^verbatim>\<open>vault.create\<close> in a trace, each with its path and content.\<close>

fun attempts :: "event list \<Rightarrow> (jstring \<times> jstring) list" where
  "attempts [] = []"
| "attempts (Created path content # tr) = (path, content) # attempts tr"
| "attempts (CreateFailed path content message # tr) = (path, content) # attempts tr"
| "attempts (e # tr) = attempts tr"

text \<open>The number of files that a trace has created.\<close>

fun created :: "event list \<Rightarrow> nat" where
  "created [] = 0"
| "created (Created path content # tr) = Suc (created tr)"
| "created (e # tr) = created tr"

text \<open>The events that change the vault.\<close>

fun mutation :: "event \<Rightarrow> bool" where
  "mutation (CreateFolder path) = True"
| "mutation (Created path content) = True"
| "mutation DeleteFile = True"
| "mutation e = False"

text \<open>The notices of the form \<^verbatim>\<open>Split into ...\<close>.\<close>

fun summaryNotice :: "event \<Rightarrow> bool" where
  "summaryNotice (Notice message) = prefix (lit ''Split into '') message"
| "summaryNotice e = False"

section \<open>The functions of utils.ts, and a host to run examples on\<close>

text \<open>
  Modelled from the spec: \<^verbatim>\<open>removeFrontmatterBlock\<close> of \<^verbatim>\<open>utils.ts\<close>, which is not part of
  the sources at hand. The specification describes it as \<^verbatim>\<open>stripLeadingMetadataBlock\<close>: a
  block that opens with a marker line \<^verbatim>\<open>---\<close> at the very start of the document and closes
  with the next marker line is removed, marker lines included; a text without such a block
  is returned unchanged.
\<close>

definition stripLeadingMetadataBlock :: "jstring \<Rightarrow> jstring" where
  "stripLeadingMetadataBlock text =
     (case str_split text [newline] of
        [] \<Rightarrow> text
      | first # rest \<Rightarrow>
          if first = lit ''---'' \<and> lit ''---'' \<in> set rest
          then joinWith [newline] (tl (dropWhile (\<lambda>line. line \<noteq> lit ''---'') rest))
          else text)"

text \<open>
  Modelled from the spec: \<^verbatim>\<open>escapeInvalidFileNameChars\<close> of \<^verbatim>\<open>utils.ts\<close>, which is not part
  of the sources at hand. The specification asks to strip the characters that are invalid
  in a file name, at least \<^verbatim>\<open>\ / : * ? " < > |\<close> and the control characters, and to
  collapse and trim the whitespace that remains.
\<close>

definition invalidFileNameChar :: "jschar \<Rightarrow> bool" where
  "invalidFileNameChar c \<longleftrightarrow>
     c \<in> {0x5C, 0x2F, 0x3A, 0x2A, 0x3F, 0x22, 0x3C, 0x3E, 0x7C} \<or> c < 0x20 \<or> (0x7F \<le> c \<and> c \<le> 0x9F)"

fun collapseWhiteSpace :: "jstring \<Rightarrow> jstring" where
  "collapseWhiteSpace (a # b # cs) =
     (if isWhiteSpace a \<and> isWhiteSpace b then collapseWhiteSpace (b # cs)
      else a # collapseWhiteSpace (b # cs))"
| "collapseWhiteSpace cs = cs"

definition stripInvalidFileNameChars :: "jstring \<Rightarrow> jstring" where
  "stripInvalidFileNameChars v =
     str_trim (collapseWhiteSpace (filter (\<lambda>c. \<not> invalidFileNameChar c) v))"

text \<open>
  Modelled from the spec: \<^verbatim>\<open>trimForFileName\<close> of \<^verbatim>\<open>utils.ts\<close>, which is not part of the
  sources at hand. The specification asks to truncate to the maximum length of a path
  component of the storage system, reserving room for the extension; the maximum is a
  parameter here.
\<close>

definition truncateForFileName :: "nat \<Rightarrow> jstring \<Rightarrow> jstring \<Rightarrow> jstring" where
  "truncateForFileName maxLength v extension = take (maxLength - length extension) v"

text \<open>
  A vault for the examples: \<^verbatim>\<open>create\<close> rejects with \<^verbatim>\<open>File already exists.\<close> at a path that
  existed before the run or was created in it, rejects with another message at a path
  listed as unwritable, and resolves otherwise.
\<close>

fun createdPaths :: "event list \<Rightarrow> jstring list" where
  "createdPaths [] = []"
| "createdPaths (Created path content # tr) = path # createdPaths tr"
| "createdPaths (e # tr) = createdPaths tr"

definition exampleCreate ::
  "jstring list \<Rightarrow> jstring list \<Rightarrow> event list \<Rightarrow> jstring \<Rightarrow> jstring \<Rightarrow> error option" where
  "exampleCreate existing unwritable tr path content =
     (if path \<in> set (existing @ createdPaths tr) then Some (Error (lit ''File already exists.''))
      else if path \<in> set unwritable then Some (Error (lit ''Permission denied.''))
      else None)"

text \<open>
  A host for the examples: the note has the content \<open>doc\<close> and lies in the folder
  \<^verbatim>\<open>notes\<close>, the clock stands at \<open>1000\<close>, no path needs normalising, and
  \<^verbatim>\<open>vault.delete\<close> answers \<open>del\<close>.
\<close>

definition exampleEnv :: "jstring \<Rightarrow> jstring list \<Rightarrow> jstring list \<Rightarrow> error option \<Rightarrow> env" where
  "exampleEnv doc existing unwritable del =
     \<lparr> removeFrontmatterBlock = stripLeadingMetadataBlock,
       escapeInvalidFileNameChars = stripInvalidFileNameChars,
       trimForFileName = truncateForFileName 255,
       normalizePath = (\<lambda>path. path),
       cachedRead = Inr doc,
       parentPath = Some (lit ''notes''),
       vaultCreate = exampleCreate existing unwritable,
       vaultDelete = (\<lambda>tr. del),
       dateNow = (\<lambda>i. 1000),
       randomUUID = (\<lambda>i. lit ''uuid-'' @ digitsOf i) \<rparr>"

definition exampleSettings :: "jstring \<Rightarrow> bool \<Rightarrow> bool \<Rightarrow> NoteSplitterSettings" where
  "exampleSettings delim title del =
     \<lparr> saveFolderPath = lit ''out'', useContentAsTitle = title, delimiter = delim,
       appendToSplitContent = [], deleteOriginalNote = del \<rparr>"

section \<open>Properties of the string functions\<close>

lemma splitOn_not_Nil: "splitOn sep s \<noteq> []"
  by (induction sep s rule: splitOn.induct) (auto split: list.splits)

lemma splitOn_match:
  "sep \<noteq> [] \<Longrightarrow> prefix sep (c # cs) \<Longrightarrow>
   splitOn sep (c # cs) = [] # splitOn sep (drop (length sep) (c # cs))"
  by simp

lemma splitOn_nomatch:
  "\<not> (sep \<noteq> [] \<and> prefix sep (c # cs)) \<Longrightarrow>
   \<exists>seg segs. splitOn sep cs = seg # segs \<and> splitOn sep (c # cs) = (c # seg) # segs"
  using splitOn_not_Nil [of sep cs] by (cases "splitOn sep cs") simp_all

declare splitOn.simps(2) [simp del]

lemma str_split_not_Nil: "sep \<noteq> [] \<Longrightarrow> str_split s sep \<noteq> []"
  by (simp add: str_split_def splitOn_not_Nil)

lemma joinWith_Cons: "joinWith sep ((c # seg) # segs) = c # joinWith sep (seg # segs)"
  by (cases segs) auto

lemma joinWith_Nil_Cons: "segs \<noteq> [] \<Longrightarrow> joinWith sep ([] # segs) = sep @ joinWith sep segs"
  by (cases segs) auto

lemma joinWith_splitOn: "sep \<noteq> [] \<Longrightarrow> joinWith sep (splitOn sep s) = s"
proof (induction sep s rule: splitOn.induct)
  case (1 sep)
  then show ?case by simp
next
  case (2 sep c cs)
  show ?case
  proof (cases "prefix sep (c # cs)")
    case True
    have "joinWith sep (splitOn sep (drop (length sep) (c # cs))) = drop (length sep) (c # cs)"
      using 2 True by simp
    moreover have "sep @ drop (length sep) (c # cs) = c # cs"
      using True by (auto simp: prefix_def)
    ultimately show ?thesis
      using splitOn_match [OF 2(3) True] by (simp add: joinWith_Nil_Cons splitOn_not_Nil)
  next
    case False
    then obtain seg segs
      where sp: "splitOn sep cs = seg # segs" "splitOn sep (c # cs) = (c # seg) # segs"
      using splitOn_nomatch [of sep c cs] by blast
    have "joinWith sep (splitOn sep cs) = cs" using 2 False by simp
    then show ?thesis using sp by (simp add: joinWith_Cons)
  qed
qed

lemma hd_splitOn_prefix: "prefix (hd (splitOn sep s)) s"
proof (induction sep s rule: splitOn.induct)
  case (1 sep)
  then show ?case by simp
next
  case (2 sep c cs)
  show ?case
  proof (cases "sep \<noteq> [] \<and> prefix sep (c # cs)")
    case True
    then show ?thesis using splitOn_match [of sep c cs] by simp
  next
    case False
    then obtain seg segs
      where sp: "splitOn sep cs = seg # segs" "splitOn sep (c # cs) = (c # seg) # segs"
      using splitOn_nomatch [of sep c cs] by blast
    then show ?thesis using 2(2) False by simp
  qed
qed

lemma splitOn_no_sep:
  "sep \<noteq> [] \<Longrightarrow> seg \<in> set (splitOn sep s) \<Longrightarrow> \<not> sublist sep seg"
proof (induction sep s arbitrary: seg rule: splitOn.induct)
  case (1 sep)
  then show ?case by simp
next
  case (2 sep c cs)
  show ?case
  proof (cases "prefix sep (c # cs)")
    case True
    then have "seg = [] \<or> seg \<in> set (splitOn sep (drop (length sep) (c # cs)))"
      using 2(4) splitOn_match [OF 2(3) True] by auto
    then show ?thesis using 2(1) True 2(3) by auto
  next
    case False
    then obtain s0 segs
      where sp: "splitOn sep cs = s0 # segs" "splitOn sep (c # cs) = (c # s0) # segs"
      using splitOn_nomatch [of sep c cs] by blast
    have ih: "\<And>x. x \<in> set (s0 # segs) \<Longrightarrow> \<not> sublist sep x"
      using 2(2) [OF _ 2(3)] False sp(1) by auto
    have "prefix s0 cs" using hd_splitOn_prefix [of sep cs] sp(1) by simp
    then have "\<not> prefix sep (c # s0)"
      using False by (metis Cons_prefix_Cons prefix_order.trans)
    then have "\<not> sublist sep (c # s0)"
      using ih [of s0] by (simp add: sublist_Cons_right)
    then show ?thesis using 2(4) sp(2) ih by auto
  qed
qed

lemma splitOn_leftmost:
  "sep \<noteq> [] \<Longrightarrow> seg \<in> set (butlast (splitOn sep s)) \<Longrightarrow> \<not> sublist sep (seg @ butlast sep)"
proof (induction sep s arbitrary: seg rule: splitOn.induct)
  case (1 sep)
  then show ?case by simp
next
  case (2 sep c cs)
  show ?case
  proof (cases "prefix sep (c # cs)")
    case True
    have "\<not> sublist sep (butlast sep)"
      using 2(3) by (metis sublist_length_le length_butlast diff_less length_greater_0_conv less_one not_le)
    moreover have "seg = [] \<or> seg \<in> set (butlast (splitOn sep (drop (length sep) (c # cs))))"
      using 2(4) splitOn_match [OF 2(3) True] by (auto simp: splitOn_not_Nil)
    ultimately show ?thesis using 2(1) True 2(3) by auto
  next
    case False
    then obtain s0 segs
      where sp: "splitOn sep cs = s0 # segs" "splitOn sep (c # cs) = (c # s0) # segs"
      using splitOn_nomatch [of sep c cs] by blast
    show ?thesis
    proof (cases "segs = []")
      case True
      then show ?thesis using 2(4) sp(2) by simp
    next
      case ne: False
      have ih: "\<And>x. x \<in> set (butlast (s0 # segs)) \<Longrightarrow> \<not> sublist sep (x @ butlast sep)"
        using 2(2) [OF _ 2(3)] False sp(1) by auto
      have "joinWith sep (s0 # segs) = cs" using joinWith_splitOn [OF 2(3), of cs] sp(1) by simp
      then have "prefix (s0 @ sep) cs" using ne by (cases segs) auto
      then have "prefix (s0 @ butlast sep) cs"
        by (metis 2(3) append_butlast_last_id append_prefixD append.assoc)
      then have "\<not> prefix sep (c # s0 @ butlast sep)"
        using False by (metis Cons_prefix_Cons prefix_order.trans)
      then have "\<not> sublist sep (c # s0 @ butlast sep)"
        using ih [of s0] ne by (simp add: sublist_Cons_right)
      then show ?thesis using 2(4) sp(2) ih ne by auto
    qed
  qed
qed

subsection \<open>trim\<close>

lemma str_trim_sublist: "sublist (str_trim s) s"
proof -
  have "sublist (rev (str_trim s)) (rev s)"
    unfolding str_trim_def rev_rev_ident
    by (meson sublist_dropWhile sublist_order.order_trans sublist_rev)
  then show ?thesis by simp
qed

lemma str_trim_decomposition:
  "\<exists>l r. s = l @ str_trim s @ r \<and> (\<forall>c\<in>set l. isWhiteSpace c) \<and> (\<forall>c\<in>set r. isWhiteSpace c)"
proof -
  let ?l = "takeWhile isWhiteSpace s"
  let ?m = "dropWhile isWhiteSpace s"
  let ?r = "rev (takeWhile isWhiteSpace (rev ?m))"
  have "rev ?m = takeWhile isWhiteSpace (rev ?m) @ dropWhile isWhiteSpace (rev ?m)" by simp
  then have "?m = rev (dropWhile isWhiteSpace (rev ?m)) @ ?r"
    by (metis rev_append rev_rev_ident)
  then have "s = ?l @ str_trim s @ ?r"
    unfolding str_trim_def by (metis takeWhile_dropWhile_id)
  moreover have "\<forall>c\<in>set ?l. isWhiteSpace c" by (auto dest: set_takeWhileD)
  moreover have "\<forall>c\<in>set ?r. isWhiteSpace c" by (auto dest: set_takeWhileD)
  ultimately show ?thesis by blast
qed

lemma str_trim_ends:
  assumes "str_trim s \<noteq> []"
  shows "\<not> isWhiteSpace (hd (str_trim s))" and "\<not> isWhiteSpace (last (str_trim s))"
proof -
  let ?m = "dropWhile isWhiteSpace s"
  let ?t = "dropWhile isWhiteSpace (rev ?m)"
  have t: "?t \<noteq> []" using assms by (simp add: str_trim_def)
  then have "\<not> isWhiteSpace (hd ?t)" by (rule hd_dropWhile)
  then show "\<not> isWhiteSpace (last (str_trim s))"
    using t by (simp add: str_trim_def last_rev)
  have m: "?m \<noteq> []"
  proof
    assume "?m = []"
    then have "rev ?m = []" by (simp only: rev.simps)
    then have "?t = []" by (simp only: dropWhile.simps)
    with t show False by (simp only:)
  qed
  then have hm: "\<not> isWhiteSpace (hd ?m)" by (rule hd_dropWhile)
  have "suffix ?t (rev ?m)" by (rule suffix_dropWhile)
  then obtain p where "rev ?m = p @ ?t" by (auto simp: suffix_def)
  then have "?m = rev ?t @ rev p" by (metis rev_append rev_rev_ident)
  then have "hd ?m = hd (rev ?t)" using t by (metis hd_append2 rev_is_Nil_conv)
  then show "\<not> isWhiteSpace (hd (str_trim s))"
    using hm by (simp add: str_trim_def)
qed

subsection \<open>Numbers as strings\<close>

declare digitsOf.simps [simp del]

lemma digitsOf_not_Nil: "digitsOf n \<noteq> []"
  by (subst digitsOf.simps) simp

lemma unat_digit: "k < 10 \<Longrightarrow> unat (word_of_nat (48 + k) :: jschar) = 48 + k"
  unfolding unat_of_nat by simp

lemma digit_inj:
  assumes "a < 10" "b < 10" "(word_of_nat (48 + a) :: jschar) = word_of_nat (48 + b)"
  shows "a = b"
proof -
  have "unat (word_of_nat (48 + a) :: jschar) = unat (word_of_nat (48 + b) :: jschar)"
    using assms(3) by (rule arg_cong)
  then have "48 + a = 48 + b"
    by (simp only: unat_digit [OF assms(1)] unat_digit [OF assms(2)])
  then show ?thesis by simp
qed

lemma digitsOf_inj: "digitsOf m = digitsOf n \<Longrightarrow> m = n"
proof (induction m arbitrary: n rule: digitsOf.induct)
  case (1 m)
  show ?case
  proof (cases "m < 10")
    case m: True
    show ?thesis
    proof (cases "n < 10")
      case True
      then show ?thesis using m 1(2) digit_inj [of m n]
        by (simp add: digitsOf.simps [of m] digitsOf.simps [of n])
    next
      case False
      then show ?thesis using m 1(2) digitsOf_not_Nil [of "n div 10"]
        by (simp add: digitsOf.simps [of m] digitsOf.simps [of n])
    qed
  next
    case m: False
    show ?thesis
    proof (cases "n < 10")
      case True
      then show ?thesis using m 1(2) digitsOf_not_Nil [of "m div 10"]
        by (simp add: digitsOf.simps [of m] digitsOf.simps [of n])
    next
      case False
      then have "digitsOf (m div 10) = digitsOf (n div 10)"
        and d: "(of_nat (48 + m mod 10) :: jschar) = of_nat (48 + n mod 10)"
        using m 1(2) by (simp_all add: digitsOf.simps [of m] digitsOf.simps [of n])
      then have "m div 10 = n div 10" using 1(1) m by simp
      moreover have "m mod 10 = n mod 10" using d digit_inj [of "m mod 10" "n mod 10"] by simp
      ultimately show ?thesis by (metis div_mult_mod_eq)
    qed
  qed
qed

lemma digitsOf_no_minus: "c \<in> set (digitsOf n) \<Longrightarrow> c \<noteq> 45"
proof (induction n rule: digitsOf.induct)
  case (1 n)
  have d: "\<And>k. k < 10 \<Longrightarrow> (word_of_nat (48 + k) :: jschar) \<noteq> 45"
  proof
    fix k :: nat assume k: "k < 10" and e: "(word_of_nat (48 + k) :: jschar) = 45"
    from e have "unat (word_of_nat (48 + k) :: jschar) = unat (45 :: jschar)" by (rule arg_cong)
    then have "48 + k = unat (45 :: jschar)" by (simp only: unat_digit [OF k])
    then show False by simp
  qed
  show ?case
  proof (cases "n < 10")
    case True
    then show ?thesis using 1(2) d [of n] by (simp add: digitsOf.simps [of n])
  next
    case False
    then show ?thesis using 1 d [of "n mod 10"] by (auto simp add: digitsOf.simps [of n])
  qed
qed

lemma numberToString_inj: "numberToString a = numberToString b \<Longrightarrow> a = b"
proof -
  assume eq: "numberToString a = numberToString b"
  have minus: "lit ''-'' = [45]" by (simp add: lit_def)
  have hdne: "\<And>n. hd (digitsOf n) \<noteq> 45"
    using digitsOf_no_minus digitsOf_not_Nil by (metis hd_in_set)
  show ?thesis
  proof (cases "a < 0")
    case a: True
    show ?thesis
    proof (cases "b < 0")
      case True
      then have "digitsOf (nat (- a)) = digitsOf (nat (- b))"
        using a eq by (simp add: numberToString_def)
      then have "nat (- a) = nat (- b)" by (rule digitsOf_inj)
      then show ?thesis using a True by simp
    next
      case False
      then have "45 # digitsOf (nat (- a)) = digitsOf (nat b)"
        using a eq minus by (simp add: numberToString_def)
      then show ?thesis using hdne [of "nat b"] by (metis list.sel(1))
    qed
  next
    case a: False
    show ?thesis
    proof (cases "b < 0")
      case True
      then have "digitsOf (nat a) = 45 # digitsOf (nat (- b))"
        using a eq minus by (simp add: numberToString_def)
      then show ?thesis using hdne [of "nat a"] by (metis list.sel(1))
    next
      case False
      then have "digitsOf (nat a) = digitsOf (nat b)"
        using a eq by (simp add: numberToString_def)
      then have "nat a = nat b" by (rule digitsOf_inj)
      then show ?thesis using a False by simp
    qed
  qed
qed

subsection \<open>The delimiter\<close>

lemma escapedDelimiter_append:
  "escapedDelimiter (xs @ [backslash, letter_n] @ ys)
     = escapedDelimiter xs @ [newline] @ escapedDelimiter ys"
proof (induction xs rule: escapedDelimiter.induct)
  case (1 a b cs)
  then show ?case by simp
next
  case (2 a)
  have "backslash \<noteq> letter_n" by (simp add: backslash_def letter_n_def)
  then show ?case by simp
next
  case 3
  then show ?case by simp
qed

lemma escapedDelimiter_unchanged:
  "\<not> sublist [backslash, letter_n] xs \<Longrightarrow> escapedDelimiter xs = xs"
proof (induction xs rule: escapedDelimiter.induct)
  case (1 a b cs)
  then show ?case by (auto simp: sublist_Cons_right)
qed simp_all

lemma escapedDelimiter_no_escape_left:
  "\<not> sublist [backslash, letter_n] (escapedDelimiter xs)"
proof (induction xs rule: escapedDelimiter.induct)
  case (1 a b cs)
  have ne: "newline \<noteq> letter_n" "newline \<noteq> backslash"
    by (simp_all add: backslash_def letter_n_def newline_def)
  show ?case
  proof (cases "a = backslash \<and> b = letter_n")
    case True
    then show ?thesis using 1(1) ne by (auto simp: sublist_Cons_right)
  next
    case False
    have "\<not> prefix [backslash, letter_n] (a # escapedDelimiter (b # cs))"
    proof
      assume p: "prefix [backslash, letter_n] (a # escapedDelimiter (b # cs))"
      then have a: "a = backslash" and p': "prefix [letter_n] (escapedDelimiter (b # cs))" by auto
      show False
      proof (cases cs)
        case Nil
        then show ?thesis using p' a False by auto
      next
        case (Cons c cs')
        then show ?thesis using p' a False ne by (auto split: if_splits)
      qed
    qed
    then show ?thesis using False 1(2) by (auto simp: sublist_Cons_right)
  qed
qed (simp_all add: sublist_Cons_right)

lemma escapedDelimiter_Nil_iff: "escapedDelimiter d = [] \<longleftrightarrow> d = []"
  by (induction d rule: escapedDelimiter.induct) auto

lemma escapedDelimiter_split_join:
  "escapedDelimiter xs = joinWith [newline] (str_split xs [backslash, letter_n])"
proof -
  have "escapedDelimiter xs = joinWith [newline] (splitOn [backslash, letter_n] xs)"
  proof (induction xs rule: escapedDelimiter.induct)
    case (1 a b cs)
    show ?case
    proof (cases "a = backslash \<and> b = letter_n")
      case True
      then have "splitOn [backslash, letter_n] (a # b # cs) = [] # splitOn [backslash, letter_n] cs"
        using splitOn_match [of "[backslash, letter_n]" a "b # cs"] by simp
      then show ?thesis using True 1(1) by (simp add: joinWith_Nil_Cons splitOn_not_Nil)
    next
      case False
      then have "\<not> prefix [backslash, letter_n] (a # b # cs)" by auto
      then obtain seg segs where sp: "splitOn [backslash, letter_n] (b # cs) = seg # segs"
        "splitOn [backslash, letter_n] (a # b # cs) = (a # seg) # segs"
        using splitOn_nomatch [of "[backslash, letter_n]" a "b # cs"] by blast
      then show ?thesis using False 1(2) by (auto simp: joinWith_Cons)
    qed
  next
    case (2 a)
    have "\<not> prefix [backslash, letter_n] [a]" by simp
    then obtain seg segs where sp: "splitOn [backslash, letter_n] [] = seg # segs"
        "splitOn [backslash, letter_n] [a] = (a # seg) # segs"
      using splitOn_nomatch [of "[backslash, letter_n]" a "[]"] by blast
    then show ?case by auto
  next
    case 3
    then show ?case by simp
  qed
  then show ?thesis by (simp add: str_split_def)
qed

section \<open>The claims about the delimiter and the partition\<close>

text \<open>
  Claim C3. The replacement of line 61 turns every backslash followed by the letter n into
  one line feed and leaves every other code unit as it is: an occurrence splits the work
  into the text before it and the text behind it, a text without an occurrence is returned
  unchanged, and the result is the text split at the occurrences and joined with line
  feeds. One pass is all there is: the result holds no backslash followed by n.
\<close>

theorem escapedDelimiter_replaces_every_escape:
  "escapedDelimiter (xs @ [backslash, letter_n] @ ys)
      = escapedDelimiter xs @ [newline] @ escapedDelimiter ys
   \<and> (\<not> sublist [backslash, letter_n] xs \<longrightarrow> escapedDelimiter xs = xs)
   \<and> \<not> sublist [backslash, letter_n] (escapedDelimiter xs)
   \<and> escapedDelimiter xs = joinWith [newline] (str_split xs [backslash, letter_n])"
  using escapedDelimiter_append escapedDelimiter_unchanged escapedDelimiter_no_escape_left
    escapedDelimiter_split_join by blast

theorem escapedDelimiter_replaces_every_escape_witness:
  "\<not> sublist [backslash, letter_n] (lit ''---'')
   \<and> escapedDelimiter (lit ''---'') = lit ''---''
   \<and> escapedDelimiter (lit ''a'' @ [backslash, letter_n] @ [backslash, backslash, letter_n])
        = lit ''a'' @ [newline] @ [backslash, newline]"
proof -
  have h: "\<not> sublist [backslash, letter_n] (lit ''---'')" by code_simp
  have e: "escapedDelimiter [backslash, backslash, letter_n] = [backslash, newline]"
    and a: "escapedDelimiter (lit ''a'') = lit ''a''" by code_simp+
  show ?thesis
    using h e a escapedDelimiter_replaces_every_escape [of "lit ''---''" "[]"]
      escapedDelimiter_replaces_every_escape [of "lit ''a''" "[backslash, backslash, letter_n]"]
    by simp
qed

text \<open>
  Claim C2. For a non-empty delimiter \<open>d\<close>, the parts of a text \<open>T\<close> are the trimmed pieces of
  \<^verbatim>\<open>T.split(d)\<close>, in their order, without the empty ones. The pieces joined with \<open>d\<close> give
  \<open>T\<close> back, so \<open>d\<close> is cut out as a literal string; no piece contains \<open>d\<close>, and the cut is
  made at the first occurrence behind the previous one (a piece that is followed by a
  delimiter contains no occurrence even when the delimiter behind it, without its last
  code unit, is added). Trimming takes only whitespace from the two ends. A part is never
  empty, starts and ends with a code unit that is not whitespace, and so is not made of
  whitespace only.
\<close>

theorem splitContent_partitions:
  assumes "d \<noteq> []"
  shows "splitContent T d = filter (\<lambda>f. f \<noteq> []) (map str_trim (str_split T d))
    \<and> joinWith d (str_split T d) = T
    \<and> (\<forall>seg\<in>set (str_split T d). \<not> sublist d seg)
    \<and> (\<forall>seg\<in>set (butlast (str_split T d)). \<not> sublist d (seg @ butlast d))
    \<and> (\<forall>seg\<in>set (str_split T d). \<exists>l r. seg = l @ str_trim seg @ r
          \<and> (\<forall>c\<in>set l. isWhiteSpace c) \<and> (\<forall>c\<in>set r. isWhiteSpace c))
    \<and> (\<forall>f\<in>set (splitContent T d). f \<noteq> [] \<and> \<not> isWhiteSpace (hd f) \<and> \<not> isWhiteSpace (last f)
          \<and> \<not> (\<forall>c\<in>set f. isWhiteSpace c))"
proof -
  have sp: "str_split T d = splitOn d T" using assms by (simp add: str_split_def)
  have 1: "splitContent T d = filter (\<lambda>f. f \<noteq> []) (map str_trim (str_split T d))"
    by (simp add: splitContent_def)
  have 2: "joinWith d (str_split T d) = T" using assms sp by (simp add: joinWith_splitOn)
  have 3: "\<forall>seg\<in>set (str_split T d). \<not> sublist d seg"
    using assms sp splitOn_no_sep by metis
  have 4: "\<forall>seg\<in>set (butlast (str_split T d)). \<not> sublist d (seg @ butlast d)"
    using assms sp splitOn_leftmost by metis
  have 5: "\<forall>seg\<in>set (str_split T d). \<exists>l r. seg = l @ str_trim seg @ r
          \<and> (\<forall>c\<in>set l. isWhiteSpace c) \<and> (\<forall>c\<in>set r. isWhiteSpace c)"
    using str_trim_decomposition by blast
  have 6: "\<forall>f\<in>set (splitContent T d). f \<noteq> [] \<and> \<not> isWhiteSpace (hd f) \<and> \<not> isWhiteSpace (last f)
          \<and> \<not> (\<forall>c\<in>set f. isWhiteSpace c)"
  proof
    fix f assume "f \<in> set (splitContent T d)"
    then obtain seg where f: "f = str_trim seg" "f \<noteq> []" by (auto simp: splitContent_def)
    then have "\<not> isWhiteSpace (hd f)" "\<not> isWhiteSpace (last f)" using str_trim_ends by auto
    moreover have "hd f \<in> set f" using f(2) by simp
    ultimately show "f \<noteq> [] \<and> \<not> isWhiteSpace (hd f) \<and> \<not> isWhiteSpace (last f)
          \<and> \<not> (\<forall>c\<in>set f. isWhiteSpace c)" using f(2) by blast
  qed
  from 1 2 3 4 5 6 show ?thesis by blast
qed

theorem splitContent_partitions_witness:
  "lit ''---'' \<noteq> []
   \<and> splitContent (lit ''A'' @ [newline] @ lit ''---'' @ [newline] @ lit ''B --- C '') (lit ''---'')
       = [lit ''A'', lit ''B'', lit ''C'']
   \<and> joinWith (lit ''---'')
        (str_split (lit ''A'' @ [newline] @ lit ''---'' @ [newline] @ lit ''B --- C '') (lit ''---''))
       = lit ''A'' @ [newline] @ lit ''---'' @ [newline] @ lit ''B --- C ''"
proof -
  have d: "lit ''---'' \<noteq> ([] :: jstring)" by (simp add: lit_def)
  have v: "splitContent (lit ''A'' @ [newline] @ lit ''---'' @ [newline] @ lit ''B --- C '') (lit ''---'')
       = [lit ''A'', lit ''B'', lit ''C'']" by code_simp
  show ?thesis
    using d v splitContent_partitions [OF d, of "lit ''A'' @ [newline] @ lit ''---'' @ [newline] @ lit ''B --- C ''"]
    by blast
qed

text \<open>
  Claim C9. For a non-empty delimiter, the normalised one in particular, no part produced
  by the partition contains the delimiter.
\<close>

theorem fragments_do_not_contain_delimiter:
  "d \<noteq> [] \<Longrightarrow> \<forall>f\<in>set (splitContent T d). \<not> str_includes f d"
proof
  fix f assume d: "d \<noteq> []" and "f \<in> set (splitContent T d)"
  then obtain seg where seg: "seg \<in> set (splitOn d T)" and f: "f = str_trim seg"
    by (auto simp: splitContent_def str_split_def)
  have "\<not> sublist d seg" using splitOn_no_sep [OF d seg] .
  moreover have "sublist f seg" using f str_trim_sublist by simp
  ultimately have "\<not> sublist d f" using sublist_order.order_trans by blast
  then show "\<not> str_includes f d" by (simp add: str_includes_def)
qed

theorem fragments_do_not_contain_delimiter_witness:
  "escapedDelimiter [backslash, letter_n] = [newline] \<and> [newline] \<noteq> []
   \<and> splitContent (lit ''one'' @ [newline] @ lit '' two'') [newline] = [lit ''one'', lit ''two'']
   \<and> \<not> str_includes (lit ''one'') [newline] \<and> \<not> str_includes (lit ''two'') [newline]"
proof -
  have d: "[newline] \<noteq> []" by simp
  have e: "escapedDelimiter [backslash, letter_n] = [newline]" by simp
  have v: "splitContent (lit ''one'' @ [newline] @ lit '' two'') [newline] = [lit ''one'', lit ''two'']"
    by code_simp
  show ?thesis
    using d e v fragments_do_not_contain_delimiter [OF d, of "lit ''one'' @ [newline] @ lit '' two''"]
    by simp
qed

section \<open>The claims about file names\<close>

text \<open>
  Claim C7. Without \<^verbatim>\<open>useContentAsTitle\<close> the name of part \<open>i\<close> is \<^verbatim>\<open>split-note-\<close> followed by
  \<^verbatim>\<open>Date.now() + i\<close>. The clock is read in every iteration; as long as it does not run
  backwards during the loop (a fixed seed is the special case of a clock that stands
  still), two different indices never get the same name.
\<close>

theorem synthesized_names_distinct:
  assumes "\<not> useContentAsTitle st"
    and "\<forall>a b. a \<le> b \<longrightarrow> dateNow h a \<le> dateNow h b"
    and "i \<noteq> j"
  shows "fileName h st i c \<noteq> fileName h st j c'"
proof -
  have lt: "\<And>a b. a < b \<Longrightarrow> dateNow h a + int a \<noteq> dateNow h b + int b"
  proof -
    fix a b :: nat assume "a < b"
    then have "dateNow h a \<le> dateNow h b" using assms(2) by simp
    then show "dateNow h a + int a \<noteq> dateNow h b + int b" using \<open>a < b\<close> by simp
  qed
  have "dateNow h i + int i \<noteq> dateNow h j + int j"
    using lt [of i j] lt [of j i] assms(3) by (cases "i < j") auto
  then have "numberToString (dateNow h i + int i) \<noteq> numberToString (dateNow h j + int j)"
    using numberToString_inj by blast
  then show ?thesis using assms(1) by (simp add: fileName_def)
qed

theorem synthesized_names_distinct_witness:
  "fileName (exampleEnv (lit ''A---B'') [] [] None) (exampleSettings (lit ''---'') False False) 0 (lit ''A'')
     \<noteq> fileName (exampleEnv (lit ''A---B'') [] [] None) (exampleSettings (lit ''---'') False False) 1 (lit ''B'')"
proof -
  have 1: "\<not> useContentAsTitle (exampleSettings (lit ''---'') False False)"
    by (simp add: exampleSettings_def)
  have 2: "\<forall>a b. a \<le> b \<longrightarrow> dateNow (exampleEnv (lit ''A---B'') [] [] None) a
              \<le> dateNow (exampleEnv (lit ''A---B'') [] [] None) b"
    by (simp add: exampleEnv_def)
  have 3: "(0::nat) \<noteq> 1" by simp
  show ?thesis using synthesized_names_distinct [OF 1 2 3] .
qed

section \<open>Properties of the run\<close>

lemma created_append: "created (xs @ ys) = created xs + created ys"
  by (induction xs rule: created.induct) simp_all

lemma attempts_append: "attempts (xs @ ys) = attempts xs @ attempts ys"
  by (induction xs rule: attempts.induct) simp_all

lemma errorNotice_not_summary: "\<not> summaryNotice (errorNotice message)"
  by (simp add: errorNotice_def lit_def)

lemma retryCreate_ext:
  "\<exists>ext. retryCreate h fp i body (tr, n) = (tr @ ext, n + created ext)
     \<and> created ext \<le> 1 \<and> DeleteFile \<notin> set ext \<and> (\<forall>e\<in>set ext. \<not> summaryNotice e)
     \<and> attempts ext = [(newFilePath h fp i, body)]"
proof (cases "vaultCreate h tr (newFilePath h fp i) body")
  case None
  then have "retryCreate h fp i body (tr, n)
      = (tr @ [Created (newFilePath h fp i) body], n + created [Created (newFilePath h fp i) body])"
    by simp
  then show ?thesis by fastforce
next
  case (Some e)
  obtain m where e: "e = Error m" by (cases e)
  let ?ext = "[CreateFailed (newFilePath h fp i) body m, ConsoleError m, errorNotice m]"
  have "retryCreate h fp i body (tr, n) = (tr @ ?ext, n + created ?ext)"
    using Some e by (simp add: errorNotice_def)
  moreover have "created ?ext \<le> 1" "DeleteFile \<notin> set ?ext" "attempts ?ext = [(newFilePath h fp i, body)]"
    by (simp_all add: errorNotice_def)
  moreover have "\<forall>e\<in>set ?ext. \<not> summaryNotice e" by (simp add: errorNotice_not_summary)
  ultimately show ?thesis by blast
qed

lemma createNote_ext:
  "\<exists>ext more. createNote h st fp i c (tr, n) = (tr @ ext, n + created ext)
     \<and> created ext \<le> 1 \<and> DeleteFile \<notin> set ext \<and> (\<forall>e\<in>set ext. \<not> summaryNotice e)
     \<and> attempts ext = (filePath h st fp i c, updatedContent st c) # more \<and> length more \<le> 1"
proof (cases "vaultCreate h tr (filePath h st fp i c) (updatedContent st c)")
  case None
  let ?ext = "[Created (filePath h st fp i c) (updatedContent st c)]"
  have "createNote h st fp i c (tr, n) = (tr @ ?ext, n + created ?ext)"
    using None by simp
  then show ?thesis by fastforce
next
  case (Some e)
  obtain m where e: "e = Error m" by (cases e)
  let ?f = "CreateFailed (filePath h st fp i c) (updatedContent st c) m"
  show ?thesis
  proof (cases "str_includes m (lit ''already exists'')")
    case True
    then have cn: "createNote h st fp i c (tr, n)
        = retryCreate h fp i (updatedContent st c) (tr @ [?f], n)"
      using Some e by (simp add: Let_def del: retryCreate.simps)
    obtain ext where ext: "retryCreate h fp i (updatedContent st c) (tr @ [?f], n)
        = ((tr @ [?f]) @ ext, n + created ext)"
      "created ext \<le> 1" "DeleteFile \<notin> set ext" "\<forall>e\<in>set ext. \<not> summaryNotice e"
      "attempts ext = [(newFilePath h fp i, updatedContent st c)]"
      using retryCreate_ext [of h fp i "updatedContent st c" "tr @ [?f]" n] by blast
    have "createNote h st fp i c (tr, n) = (tr @ (?f # ext), n + created (?f # ext))"
      using cn ext(1) by simp
    moreover have "created (?f # ext) \<le> 1" "DeleteFile \<notin> set (?f # ext)"
      "\<forall>e\<in>set (?f # ext). \<not> summaryNotice e"
      "attempts (?f # ext) = (filePath h st fp i c, updatedContent st c) # [(newFilePath h fp i, updatedContent st c)]"
      using ext by simp_all
    ultimately show ?thesis by (metis length_Cons list.size(3) One_nat_def order_refl)
  next
    case False
    let ?ext = "[?f, errorNotice m, ConsoleLog m]"
    have "createNote h st fp i c (tr, n) = (tr @ ?ext, n + created ?ext)"
      using Some e False by (simp add: errorNotice_def)
    moreover have "created ?ext \<le> 1" "DeleteFile \<notin> set ?ext"
      "attempts ?ext = (filePath h st fp i c, updatedContent st c) # []"
      by (simp_all add: errorNotice_def)
    moreover have "\<forall>e\<in>set ?ext. \<not> summaryNotice e" by (simp add: errorNotice_not_summary)
    ultimately show ?thesis by (metis list.size(3) zero_le)
  qed
qed

lemma writeNotes_ext:
  "\<exists>ext. writeNotes h st fp i parts (tr, n) = (tr @ ext, n + created ext)
     \<and> created ext \<le> length parts \<and> DeleteFile \<notin> set ext \<and> (\<forall>e\<in>set ext. \<not> summaryNotice e)
     \<and> (\<forall>k<length parts.
           (filePath h st fp (i + k) (parts ! k), updatedContent st (parts ! k)) \<in> set (attempts ext))
     \<and> length (attempts ext) \<le> 2 * length parts"
proof (induction parts arbitrary: i tr n)
  case Nil
  then show ?case by simp
next
  case (Cons c parts)
  obtain e1 more where e1: "createNote h st fp i c (tr, n) = (tr @ e1, n + created e1)"
    "created e1 \<le> 1" "DeleteFile \<notin> set e1" "\<forall>e\<in>set e1. \<not> summaryNotice e"
    "attempts e1 = (filePath h st fp i c, updatedContent st c) # more" "length more \<le> 1"
    using createNote_ext [of h st fp i c tr n] by blast
  obtain e2 where e2: "writeNotes h st fp (Suc i) parts (tr @ e1, n + created e1)
      = ((tr @ e1) @ e2, (n + created e1) + created e2)"
    "created e2 \<le> length parts" "DeleteFile \<notin> set e2" "\<forall>e\<in>set e2. \<not> summaryNotice e"
    "\<forall>k<length parts.
       (filePath h st fp (Suc i + k) (parts ! k), updatedContent st (parts ! k)) \<in> set (attempts e2)"
    "length (attempts e2) \<le> 2 * length parts"
    using Cons [of "Suc i" "tr @ e1" "n + created e1"] by blast
  have 1: "writeNotes h st fp i (c # parts) (tr, n) = (tr @ (e1 @ e2), n + created (e1 @ e2))"
    using e1(1) e2(1) by (simp add: created_append)
  have 2: "created (e1 @ e2) \<le> length (c # parts)"
    using e1(2) e2(2) by (simp add: created_append)
  have 3: "DeleteFile \<notin> set (e1 @ e2)" using e1(3) e2(3) by simp
  have 4: "\<forall>e\<in>set (e1 @ e2). \<not> summaryNotice e" using e1(4) e2(4) by auto
  have 5: "\<forall>k<length (c # parts).
       (filePath h st fp (i + k) ((c # parts) ! k), updatedContent st ((c # parts) ! k))
         \<in> set (attempts (e1 @ e2))"
  proof (intro allI impI)
    fix k assume k: "k < length (c # parts)"
    show "(filePath h st fp (i + k) ((c # parts) ! k), updatedContent st ((c # parts) ! k))
         \<in> set (attempts (e1 @ e2))"
    proof (cases k)
      case 0
      then show ?thesis using e1(5) by (simp add: attempts_append)
    next
      case (Suc k')
      then have "k' < length parts" using k by simp
      then show ?thesis using e2(5) Suc by (simp add: attempts_append)
    qed
  qed
  have 6: "length (attempts (e1 @ e2)) \<le> 2 * length (c # parts)"
    using e1(5,6) e2(6) by (simp add: attempts_append)
  from 1 2 3 4 5 6 show ?case by blast
qed

lemma writeAll_ext:
  "\<exists>ext. writeAll h st parts
       = ([CachedRead, CreateFolder (folderPathOf h st)] @ ext, created ext)
     \<and> created ext \<le> length parts \<and> DeleteFile \<notin> set ext \<and> (\<forall>e\<in>set ext. \<not> summaryNotice e)
     \<and> (\<forall>k<length parts.
           (filePath h st (folderPathOf h st) k (parts ! k), updatedContent st (parts ! k))
             \<in> set (attempts ext))"
  using writeNotes_ext [of h st "folderPathOf h st" 0 parts "[CachedRead, CreateFolder (folderPathOf h st)]" 0]
  by (auto simp: writeAll_def Let_def)

lemma prepare_Inl:
  "prepare h st = Inl stop \<Longrightarrow>
     DeleteFile \<notin> set (fst stop) \<and> created (fst stop) = 0 \<and> (\<forall>e\<in>set (fst stop). \<not> mutation e)"
  by (auto simp: prepare_def Let_def split: if_splits sum.splits)

lemma prepare_Inr:
  assumes "prepare h st = Inr parts"
  shows "2 \<le> length parts \<and> escapedDelimiter (delimiter st) \<noteq> []
     \<and> (\<exists>doc. cachedRead h = Inr doc
           \<and> parts = splitContent (removeFrontmatterBlock h doc) (escapedDelimiter (delimiter st)))"
proof -
  have "\<not> (length parts = 0 \<or> length parts = 1)"
    using assms by (auto simp: prepare_def Let_def split: if_splits sum.splits)
  then have "2 \<le> length parts" by arith
  moreover have "escapedDelimiter (delimiter st) \<noteq> []
     \<and> (\<exists>doc. cachedRead h = Inr doc
           \<and> parts = splitContent (removeFrontmatterBlock h doc) (escapedDelimiter (delimiter st)))"
    using assms by (auto simp: prepare_def Let_def split: if_splits sum.splits)
  ultimately show ?thesis by blast
qed

lemma splitContent_Nil: "splitContent [] d = []"
  by (simp add: splitContent_def str_split_def str_trim_def)

lemma finish_trace:
  "fst (finish h st fragments (tr, k)) =
     (if k = fragments \<and> deleteOriginalNote st
      then (case vaultDelete h tr of Some e \<Rightarrow> tr @ [DeleteFile]
            | None \<Rightarrow> tr @ [DeleteFile, Notice (summaryText k)])
      else tr @ [Notice (summaryText k)])"
  by (simp split: option.splits)

section \<open>The claims about the run\<close>

text \<open>
  Claim C1. \<open>prepare h st = Inr parts\<close> says that the run gets as far as the loop, with
  the parts to write; \<open>snd (writeAll h st parts)\<close> is the value of \<^verbatim>\<open>filesCreated\<close> behind the
  loop. In every run \<^verbatim>\<open>vault.delete\<close> is called on the source note if and only if the loop
  was reached, every part was written (\<^verbatim>\<open>filesCreated\<close> equals the number of parts) and
  \<^verbatim>\<open>deleteOriginalNote\<close> is set; so a run in which a write failed, and a run that ends
  before the loop, leaves the note alone. \<^verbatim>\<open>filesCreated\<close> never exceeds the number of
  parts, and it is the number of files that the loop has created.
\<close>

theorem source_deleted_iff_all_written:
  "(DeleteFile \<in> set (fst (splitNoteByDelimiter h st)) \<longleftrightarrow>
      (\<exists>parts. prepare h st = Inr parts \<and> snd (writeAll h st parts) = length parts
         \<and> deleteOriginalNote st))
   \<and> (\<forall>parts. prepare h st = Inr parts \<longrightarrow>
        snd (writeAll h st parts) \<le> length parts
        \<and> snd (writeAll h st parts) = created (fst (writeAll h st parts)))"
proof (cases "prepare h st")
  case (Inl stop)
  then have "DeleteFile \<notin> set (fst (splitNoteByDelimiter h st))"
    using prepare_Inl [OF Inl] by (simp add: splitNoteByDelimiter_def)
  then show ?thesis using Inl by simp
next
  case (Inr parts)
  obtain ext where ext:
    "writeAll h st parts = ([CachedRead, CreateFolder (folderPathOf h st)] @ ext, created ext)"
    "created ext \<le> length parts" "DeleteFile \<notin> set ext"
    using writeAll_ext [of h st parts] by blast
  have run: "splitNoteByDelimiter h st
      = finish h st (length parts) ([CachedRead, CreateFolder (folderPathOf h st)] @ ext, created ext)"
    using Inr ext(1) by (simp add: splitNoteByDelimiter_def)
  have "DeleteFile \<in> set (fst (splitNoteByDelimiter h st))
      \<longleftrightarrow> created ext = length parts \<and> deleteOriginalNote st"
    unfolding run finish_trace using ext(3) by (auto split: option.splits)
  moreover have "created (fst (writeAll h st parts)) = created ext" using ext(1) by simp
  ultimately show ?thesis using Inr ext(1,2) by simp
qed

theorem source_deleted_iff_all_written_witness:
  "prepare (exampleEnv (lit ''A---B'') [] [] None) (exampleSettings (lit ''---'') True True)
     = Inr [lit ''A'', lit ''B'']
   \<and> snd (writeAll (exampleEnv (lit ''A---B'') [] [] None) (exampleSettings (lit ''---'') True True)
        [lit ''A'', lit ''B'']) = 2
   \<and> DeleteFile \<in> set (fst (splitNoteByDelimiter (exampleEnv (lit ''A---B'') [] [] None)
        (exampleSettings (lit ''---'') True True)))
   \<and> prepare (exampleEnv (lit ''A---B'') [] [lit ''out/B.md''] None) (exampleSettings (lit ''---'') True True)
     = Inr [lit ''A'', lit ''B'']
   \<and> snd (writeAll (exampleEnv (lit ''A---B'') [] [lit ''out/B.md''] None)
        (exampleSettings (lit ''---'') True True) [lit ''A'', lit ''B'']) = 1
   \<and> DeleteFile \<notin> set (fst (splitNoteByDelimiter (exampleEnv (lit ''A---B'') [] [lit ''out/B.md''] None)
        (exampleSettings (lit ''---'') True True)))"
proof -
  let ?S = "exampleSettings (lit ''---'') True True"
  let ?H = "exampleEnv (lit ''A---B'') [] [] None"
  let ?H' = "exampleEnv (lit ''A---B'') [] [lit ''out/B.md''] None"
  have p: "prepare ?H ?S = Inr [lit ''A'', lit ''B'']" by code_simp
  have w: "snd (writeAll ?H ?S [lit ''A'', lit ''B'']) = 2" by code_simp
  have p': "prepare ?H' ?S = Inr [lit ''A'', lit ''B'']" by code_simp
  have w': "snd (writeAll ?H' ?S [lit ''A'', lit ''B'']) = 1" by code_simp
  have d: "deleteOriginalNote ?S" by (simp add: exampleSettings_def)
  have "DeleteFile \<in> set (fst (splitNoteByDelimiter ?H ?S))"
    using source_deleted_iff_all_written [of ?H ?S] p w d by auto
  moreover have "DeleteFile \<notin> set (fst (splitNoteByDelimiter ?H' ?S))"
    using source_deleted_iff_all_written [of ?H' ?S] p' w' by auto
  ultimately show ?thesis using p w p' w' by blast
qed

text \<open>
  Claim C5. When the delimiter is not empty and the note has been read, a partition into
  no part ends the run with the notice \<^verbatim>\<open>No content to split.\<close> and a partition into one
  part ends it with the notice \<^verbatim>\<open>Only one section of content found. Nothing to split.\<close>;
  the two texts differ, and in both runs nothing is created or deleted.
\<close>

theorem nothing_to_split:
  assumes "escapedDelimiter (delimiter st) \<noteq> []" and "cachedRead h = Inr doc"
  shows "(length (splitContent (removeFrontmatterBlock h doc) (escapedDelimiter (delimiter st))) = 0
          \<longrightarrow> splitNoteByDelimiter h st = ([CachedRead, Notice noContentText], Resolved))
   \<and> (length (splitContent (removeFrontmatterBlock h doc) (escapedDelimiter (delimiter st))) = 1
          \<longrightarrow> splitNoteByDelimiter h st = ([CachedRead, Notice oneSectionText], Resolved))
   \<and> noContentText \<noteq> oneSectionText
   \<and> (length (splitContent (removeFrontmatterBlock h doc) (escapedDelimiter (delimiter st))) \<le> 1
          \<longrightarrow> (\<forall>e\<in>set (fst (splitNoteByDelimiter h st)). \<not> mutation e))"
proof -
  let ?parts = "splitContent (removeFrontmatterBlock h doc) (escapedDelimiter (delimiter st))"
  have 0: "length ?parts = 0 \<longrightarrow> prepare h st = Inl ([CachedRead, Notice noContentText], Resolved)"
    using assms by (simp add: prepare_def Let_def)
  have 1: "length ?parts = 1 \<longrightarrow> prepare h st = Inl ([CachedRead, Notice oneSectionText], Resolved)"
    using assms by (auto simp: prepare_def Let_def splitContent_Nil)
  have 2: "noContentText \<noteq> oneSectionText"
    by (simp add: noContentText_def oneSectionText_def lit_def)
  have "length ?parts \<le> 1 \<longrightarrow> length ?parts = 0 \<or> length ?parts = 1" by arith
  then show ?thesis using 0 1 2 by (auto simp: splitNoteByDelimiter_def)
qed

theorem nothing_to_split_witness:
  "splitNoteByDelimiter (exampleEnv (lit '' --- '') [] [] None) (exampleSettings (lit ''---'') False True)
     = ([CachedRead, Notice (lit ''No content to split.'')], Resolved)
   \<and> splitNoteByDelimiter (exampleEnv (lit ''Only one part'') [] [] None)
        (exampleSettings (lit ''---'') False True)
     = ([CachedRead, Notice (lit ''Only one section of content found. Nothing to split.'')], Resolved)"
proof -
  let ?S = "exampleSettings (lit ''---'') False True"
  let ?H0 = "exampleEnv (lit '' --- '') [] [] None"
  let ?H1 = "exampleEnv (lit ''Only one part'') [] [] None"
  have d: "escapedDelimiter (delimiter ?S) \<noteq> []" by code_simp
  have r0: "cachedRead ?H0 = Inr (lit '' --- '')" and r1: "cachedRead ?H1 = Inr (lit ''Only one part'')"
    by (simp_all add: exampleEnv_def)
  have l0: "length (splitContent (removeFrontmatterBlock ?H0 (lit '' --- ''))
      (escapedDelimiter (delimiter ?S))) = 0" by code_simp
  have l1: "length (splitContent (removeFrontmatterBlock ?H1 (lit ''Only one part''))
      (escapedDelimiter (delimiter ?S))) = 1" by code_simp
  show ?thesis
    using nothing_to_split [OF d r0] nothing_to_split [OF d r1] l0 l1
    by (simp add: noContentText_def oneSectionText_def)
qed

text \<open>
  Claim C8. When the delimiter is empty after the replacement of line 61, which is the
  case only for the empty setting, the run consists of the notice
  \<^verbatim>\<open>No delimiter set. Please set a delimiter in the settings.\<close> and nothing else: the note
  is not read and the vault is not touched.
\<close>

theorem empty_delimiter_stops_the_run:
  assumes "escapedDelimiter (delimiter st) = []"
  shows "splitNoteByDelimiter h st = ([Notice noDelimiterText], Resolved)
    \<and> CachedRead \<notin> set (fst (splitNoteByDelimiter h st))
    \<and> (\<forall>e\<in>set (fst (splitNoteByDelimiter h st)). \<not> mutation e)
    \<and> delimiter st = []"
proof -
  have "prepare h st = Inl ([Notice noDelimiterText], Resolved)"
    using assms by (simp add: prepare_def)
  then have "splitNoteByDelimiter h st = ([Notice noDelimiterText], Resolved)"
    by (simp add: splitNoteByDelimiter_def)
  then show ?thesis using assms escapedDelimiter_Nil_iff by simp
qed

theorem empty_delimiter_stops_the_run_witness:
  "splitNoteByDelimiter (exampleEnv (lit ''A---B'') [] [] None) (exampleSettings [] False True)
     = ([Notice (lit ''No delimiter set. Please set a delimiter in the settings.'')], Resolved)"
proof -
  have "escapedDelimiter (delimiter (exampleSettings [] False True)) = []"
    by (simp add: exampleSettings_def)
  from empty_delimiter_stops_the_run [OF this] show ?thesis
    by (simp add: noDelimiterText_def)
qed

text \<open>
  Claim C6. Let the first \<^verbatim>\<open>create\<close> for a part be rejected with the message \<open>m\<close>. If \<open>m\<close>
  contains \<^verbatim>\<open>already exists\<close>, one more \<^verbatim>\<open>create\<close> is tried, in the same folder under the
  name \<^verbatim>\<open>Split conflict\<close> followed by the random token, with the same content; the counter
  goes up by one when it resolves and stays when it is rejected too. With any other
  message there is no second call and the counter stays. Whatever happened to this part,
  the loop goes on: each of the parts behind it gets its \<^verbatim>\<open>create\<close> call.
\<close>

theorem collision_retried_once_and_loop_goes_on:
  assumes "vaultCreate h tr (filePath h st fp i c) (updatedContent st c) = Some (Error m)"
  shows "createNote h st fp i c (tr, n) =
      (if str_includes m (lit ''already exists'')
       then (case vaultCreate h (tr @ [CreateFailed (filePath h st fp i c) (updatedContent st c) m])
                   (newFilePath h fp i) (updatedContent st c) of
               None \<Rightarrow>
                 (tr @ [CreateFailed (filePath h st fp i c) (updatedContent st c) m,
                        Created (newFilePath h fp i) (updatedContent st c)], n + 1)
             | Some (Error m2) \<Rightarrow>
                 (tr @ [CreateFailed (filePath h st fp i c) (updatedContent st c) m,
                        CreateFailed (newFilePath h fp i) (updatedContent st c) m2,
                        ConsoleError m2, errorNotice m2], n))
       else (tr @ [CreateFailed (filePath h st fp i c) (updatedContent st c) m,
                   errorNotice m, ConsoleLog m], n))
    \<and> newFilePath h fp i = fp @ lit ''/Split conflict '' @ randomUUID h i @ lit ''.md''
    \<and> (\<forall>k<length rest.
          (filePath h st fp (Suc i + k) (rest ! k), updatedContent st (rest ! k))
            \<in> set (attempts (fst (writeNotes h st fp i (c # rest) (tr, n)))))"
proof -
  have 1: "createNote h st fp i c (tr, n) =
      (if str_includes m (lit ''already exists'')
       then (case vaultCreate h (tr @ [CreateFailed (filePath h st fp i c) (updatedContent st c) m])
                   (newFilePath h fp i) (updatedContent st c) of
               None \<Rightarrow>
                 (tr @ [CreateFailed (filePath h st fp i c) (updatedContent st c) m,
                        Created (newFilePath h fp i) (updatedContent st c)], n + 1)
             | Some (Error m2) \<Rightarrow>
                 (tr @ [CreateFailed (filePath h st fp i c) (updatedContent st c) m,
                        CreateFailed (newFilePath h fp i) (updatedContent st c) m2,
                        ConsoleError m2, errorNotice m2], n))
       else (tr @ [CreateFailed (filePath h st fp i c) (updatedContent st c) m,
                   errorNotice m, ConsoleLog m], n))"
    using assms by (simp add: Let_def split: option.splits error.splits)
  have 2: "newFilePath h fp i = fp @ lit ''/Split conflict '' @ randomUUID h i @ lit ''.md''"
    by (simp add: newFilePath_def)
  obtain ext where ext: "writeNotes h st fp i (c # rest) (tr, n) = (tr @ ext, n + created ext)"
    "\<forall>k<length (c # rest).
       (filePath h st fp (i + k) ((c # rest) ! k), updatedContent st ((c # rest) ! k))
         \<in> set (attempts ext)"
    using writeNotes_ext [of h st fp i "c # rest" tr n] by blast
  have 3: "\<forall>k<length rest.
          (filePath h st fp (Suc i + k) (rest ! k), updatedContent st (rest ! k))
            \<in> set (attempts (fst (writeNotes h st fp i (c # rest) (tr, n))))"
  proof (intro allI impI)
    fix k assume "k < length rest"
    then have "Suc k < length (c # rest)" by simp
    then have "(filePath h st fp (i + Suc k) ((c # rest) ! Suc k), updatedContent st ((c # rest) ! Suc k))
         \<in> set (attempts ext)" using ext(2) by blast
    then show "(filePath h st fp (Suc i + k) (rest ! k), updatedContent st (rest ! k))
            \<in> set (attempts (fst (writeNotes h st fp i (c # rest) (tr, n))))"
      using ext(1) by (simp add: attempts_append)
  qed
  from 1 2 3 show ?thesis by blast
qed

theorem collision_retried_once_and_loop_goes_on_witness:
  "vaultCreate (exampleEnv (lit ''A---B'') [lit ''out/A.md''] [] None) []
       (filePath (exampleEnv (lit ''A---B'') [lit ''out/A.md''] [] None)
          (exampleSettings (lit ''---'') True False) (lit ''out'') 0 (lit ''A''))
       (updatedContent (exampleSettings (lit ''---'') True False) (lit ''A''))
     = Some (Error (lit ''File already exists.''))
   \<and> createNote (exampleEnv (lit ''A---B'') [lit ''out/A.md''] [] None)
        (exampleSettings (lit ''---'') True False) (lit ''out'') 0 (lit ''A'') ([], 0)
     = ([CreateFailed (lit ''out/A.md'') (lit ''A'') (lit ''File already exists.''),
         Created (lit ''out/Split conflict uuid-0.md'') (lit ''A'')], 1)
   \<and> (lit ''out/B.md'', lit ''B'')
       \<in> set (attempts (fst (writeNotes (exampleEnv (lit ''A---B'') [lit ''out/A.md''] [] None)
            (exampleSettings (lit ''---'') True False) (lit ''out'') 0 [lit ''A'', lit ''B''] ([], 0))))
   \<and> createNote (exampleEnv (lit ''A---B'') [] [lit ''out/A.md''] None)
        (exampleSettings (lit ''---'') True False) (lit ''out'') 0 (lit ''A'') ([], 0)
     = ([CreateFailed (lit ''out/A.md'') (lit ''A'') (lit ''Permission denied.''),
         errorNotice (lit ''Permission denied.''), ConsoleLog (lit ''Permission denied.'')], 0)"
proof -
  let ?H = "exampleEnv (lit ''A---B'') [lit ''out/A.md''] [] None"
  let ?S = "exampleSettings (lit ''---'') True False"
  let ?H' = "exampleEnv (lit ''A---B'') [] [lit ''out/A.md''] None"
  have p': "filePath ?H' ?S (lit ''out'') 0 (lit ''A'') = lit ''out/A.md''"
    "updatedContent ?S (lit ''A'') = lit ''A''"
    by code_simp+
  have f': "vaultCreate ?H' [] (filePath ?H' ?S (lit ''out'') 0 (lit ''A'')) (updatedContent ?S (lit ''A''))
     = Some (Error (lit ''Permission denied.''))" by code_simp
  have i': "\<not> str_includes (lit ''Permission denied.'') (lit ''already exists'')" by code_simp
  have p: "filePath ?H ?S (lit ''out'') 0 (lit ''A'') = lit ''out/A.md''"
    "updatedContent ?S (lit ''A'') = lit ''A''"
    "newFilePath ?H (lit ''out'') 0 = lit ''out/Split conflict uuid-0.md''"
    "filePath ?H ?S (lit ''out'') (Suc 0) (lit ''B'') = lit ''out/B.md''"
    "updatedContent ?S (lit ''B'') = lit ''B''"
    by code_simp+
  have f: "vaultCreate ?H [] (filePath ?H ?S (lit ''out'') 0 (lit ''A'')) (updatedContent ?S (lit ''A''))
     = Some (Error (lit ''File already exists.''))" by code_simp
  have i: "str_includes (lit ''File already exists.'') (lit ''already exists'')" by code_simp
  have r: "vaultCreate ?H [CreateFailed (lit ''out/A.md'') (lit ''A'') (lit ''File already exists.'')]
      (lit ''out/Split conflict uuid-0.md'') (lit ''A'') = None" by code_simp
  note t = collision_retried_once_and_loop_goes_on [OF f, of 0 "[lit ''B'']"]
  have "createNote ?H ?S (lit ''out'') 0 (lit ''A'') ([], 0)
     = ([CreateFailed (lit ''out/A.md'') (lit ''A'') (lit ''File already exists.''),
         Created (lit ''out/Split conflict uuid-0.md'') (lit ''A'')], 0 + 1)"
    using t [THEN conjunct1] i r by (simp only: p if_True append_Nil option.case)
  then have "createNote ?H ?S (lit ''out'') 0 (lit ''A'') ([], 0)
     = ([CreateFailed (lit ''out/A.md'') (lit ''A'') (lit ''File already exists.''),
         Created (lit ''out/Split conflict uuid-0.md'') (lit ''A'')], 1)"
    by (simp only: add_0)
  moreover have "\<forall>k<length [lit ''B'' :: jstring].
          (filePath ?H ?S (lit ''out'') (Suc 0 + k) ([lit ''B''] ! k), updatedContent ?S ([lit ''B''] ! k))
            \<in> set (attempts (fst (writeNotes ?H ?S (lit ''out'') 0 [lit ''A'', lit ''B''] ([], 0))))"
    using t [THEN conjunct2, THEN conjunct2] .
  then have "(filePath ?H ?S (lit ''out'') (Suc 0) (lit ''B''), updatedContent ?S (lit ''B''))
            \<in> set (attempts (fst (writeNotes ?H ?S (lit ''out'') 0 [lit ''A'', lit ''B''] ([], 0))))"
    by (simp del: writeNotes.simps createNote.simps)
  then have "(lit ''out/B.md'', lit ''B'')
       \<in> set (attempts (fst (writeNotes ?H ?S (lit ''out'') 0 [lit ''A'', lit ''B''] ([], 0))))"
    by (simp only: p)
  moreover have "createNote ?H' ?S (lit ''out'') 0 (lit ''A'') ([], 0)
     = ([CreateFailed (lit ''out/A.md'') (lit ''A'') (lit ''Permission denied.''),
         errorNotice (lit ''Permission denied.''), ConsoleLog (lit ''Permission denied.'')], 0)"
    using collision_retried_once_and_loop_goes_on [OF f', of 0 "[]", THEN conjunct1] i'
    by (simp only: p' if_False append_Nil)
  ultimately show ?thesis using f by blast
qed

lemma summaryText_prefix: "prefix (lit ''Split into '') (summaryText k)"
  by (simp add: summaryText_def)

lemma summaryText_values:
  "summaryText 0 = lit ''Split into 0 note.''"
  "summaryText 1 = lit ''Split into 1 note.''"
  "1 < k \<Longrightarrow> summaryText k = lit ''Split into '' @ numberToString (int k) @ lit '' notes.''"
proof -
  show "summaryText 0 = lit ''Split into 0 note.''" by code_simp
  show "summaryText 1 = lit ''Split into 1 note.''" by code_simp
  show "1 < k \<Longrightarrow> summaryText k = lit ''Split into '' @ numberToString (int k) @ lit '' notes.''"
    by (simp add: summaryText_def lit_def)
qed

text \<open>
  Claim C10, with the one condition it needs. Take a run that reaches the loop and in
  which \<^verbatim>\<open>vault.delete\<close>, if it is called at all, resolves. Its last event is the notice
  \<^verbatim>\<open>Split into N note(s).\<close>, it is the only notice of that form in the run, and \<open>N\<close> is the
  number of files that were created, whatever number of writes failed. The word is
  \<^verbatim>\<open>note\<close> for 0 and for 1 and \<^verbatim>\<open>notes\<close> from 2 on; a run in which every write failed ends
  with \<^verbatim>\<open>Split into 0 note.\<close>
\<close>

theorem one_summary_notice:
  assumes "prepare h st = Inr parts"
    and "snd (writeAll h st parts) = length parts \<and> deleteOriginalNote st
           \<longrightarrow> vaultDelete h (fst (writeAll h st parts)) = None"
  shows "last (fst (splitNoteByDelimiter h st))
        = Notice (summaryText (created (fst (splitNoteByDelimiter h st))))
    \<and> length (filter summaryNotice (fst (splitNoteByDelimiter h st))) = 1
    \<and> created (fst (splitNoteByDelimiter h st)) = snd (writeAll h st parts)
    \<and> summaryText 0 = lit ''Split into 0 note.''
    \<and> summaryText 1 = lit ''Split into 1 note.''
    \<and> (\<forall>k>1. summaryText k = lit ''Split into '' @ numberToString (int k) @ lit '' notes.'')"
proof -
  obtain ext where ext:
    "writeAll h st parts = ([CachedRead, CreateFolder (folderPathOf h st)] @ ext, created ext)"
    "\<forall>e\<in>set ext. \<not> summaryNotice e"
    using writeAll_ext [of h st parts] by blast
  let ?tr = "[CachedRead, CreateFolder (folderPathOf h st)] @ ext"
  have none: "filter summaryNotice ext = []" using ext(2) by (simp add: filter_empty_conv)
  have run: "splitNoteByDelimiter h st = finish h st (length parts) (?tr, created ext)"
    using assms(1) ext(1) by (simp add: splitNoteByDelimiter_def)
  have del: "created ext = length parts \<and> deleteOriginalNote st \<longrightarrow> vaultDelete h ?tr = None"
    using assms(2) ext(1) by simp
  have "fst (splitNoteByDelimiter h st) = ?tr @ [Notice (summaryText (created ext))]
      \<or> fst (splitNoteByDelimiter h st) = ?tr @ [DeleteFile, Notice (summaryText (created ext))]"
    unfolding run finish_trace using del by auto
  then have "last (fst (splitNoteByDelimiter h st))
        = Notice (summaryText (created (fst (splitNoteByDelimiter h st))))
    \<and> length (filter summaryNotice (fst (splitNoteByDelimiter h st))) = 1
    \<and> created (fst (splitNoteByDelimiter h st)) = created ext"
  proof
    assume a: "fst (splitNoteByDelimiter h st) = ?tr @ [Notice (summaryText (created ext))]"
    have "created (?tr @ [Notice (summaryText (created ext))]) = created ext"
      by (simp add: created_append)
    moreover have "filter summaryNotice (?tr @ [Notice (summaryText (created ext))])
        = [Notice (summaryText (created ext))]"
      by (simp add: none summaryText_prefix)
    ultimately show ?thesis unfolding a by simp
  next
    assume a: "fst (splitNoteByDelimiter h st) = ?tr @ [DeleteFile, Notice (summaryText (created ext))]"
    have "created (?tr @ [DeleteFile, Notice (summaryText (created ext))]) = created ext"
      by (simp add: created_append)
    moreover have "filter summaryNotice (?tr @ [DeleteFile, Notice (summaryText (created ext))])
        = [Notice (summaryText (created ext))]"
      by (simp add: none summaryText_prefix)
    ultimately show ?thesis unfolding a by simp
  qed
  then show ?thesis using ext(1) summaryText_values by simp
qed

theorem one_summary_notice_witness:
  "prepare (exampleEnv (lit ''A---B'') [] [lit ''out/A.md'', lit ''out/B.md''] None)
       (exampleSettings (lit ''---'') True True) = Inr [lit ''A'', lit ''B'']
   \<and> created (fst (splitNoteByDelimiter
        (exampleEnv (lit ''A---B'') [] [lit ''out/A.md'', lit ''out/B.md''] None)
        (exampleSettings (lit ''---'') True True))) = 0
   \<and> last (fst (splitNoteByDelimiter
        (exampleEnv (lit ''A---B'') [] [lit ''out/A.md'', lit ''out/B.md''] None)
        (exampleSettings (lit ''---'') True True))) = Notice (lit ''Split into 0 note.'')
   \<and> length (filter summaryNotice (fst (splitNoteByDelimiter
        (exampleEnv (lit ''A---B'') [] [lit ''out/A.md'', lit ''out/B.md''] None)
        (exampleSettings (lit ''---'') True True)))) = 1
   \<and> prepare (exampleEnv (lit ''A---B'') [] [] None)
       (exampleSettings (lit ''---'') True True) = Inr [lit ''A'', lit ''B'']
   \<and> vaultDelete (exampleEnv (lit ''A---B'') [] [] None)
        (fst (writeAll (exampleEnv (lit ''A---B'') [] [] None)
           (exampleSettings (lit ''---'') True True) [lit ''A'', lit ''B''])) = None
   \<and> last (fst (splitNoteByDelimiter (exampleEnv (lit ''A---B'') [] [] None)
        (exampleSettings (lit ''---'') True True))) = Notice (lit ''Split into 2 notes.'')
   \<and> length (filter summaryNotice (fst (splitNoteByDelimiter (exampleEnv (lit ''A---B'') [] [] None)
        (exampleSettings (lit ''---'') True True)))) = 1"
proof -
  let ?H = "exampleEnv (lit ''A---B'') [] [lit ''out/A.md'', lit ''out/B.md''] None"
  let ?H2 = "exampleEnv (lit ''A---B'') [] [] None"
  let ?S = "exampleSettings (lit ''---'') True True"
  have p: "prepare ?H ?S = Inr [lit ''A'', lit ''B'']" by code_simp
  have w: "snd (writeAll ?H ?S [lit ''A'', lit ''B'']) = 0" by code_simp
  have d: "snd (writeAll ?H ?S [lit ''A'', lit ''B'']) = length [lit ''A'' :: jstring, lit ''B'']
      \<and> deleteOriginalNote ?S \<longrightarrow> vaultDelete ?H (fst (writeAll ?H ?S [lit ''A'', lit ''B''])) = None"
    by (simp add: exampleEnv_def)
  have p2: "prepare ?H2 ?S = Inr [lit ''A'', lit ''B'']" by code_simp
  have w2: "snd (writeAll ?H2 ?S [lit ''A'', lit ''B'']) = 2" by code_simp
  have v2: "vaultDelete ?H2 (fst (writeAll ?H2 ?S [lit ''A'', lit ''B''])) = None"
    by (simp add: exampleEnv_def)
  then have d2: "snd (writeAll ?H2 ?S [lit ''A'', lit ''B'']) = length [lit ''A'' :: jstring, lit ''B'']
      \<and> deleteOriginalNote ?S \<longrightarrow> vaultDelete ?H2 (fst (writeAll ?H2 ?S [lit ''A'', lit ''B''])) = None"
    by (simp only:) simp
  have two: "lit ''Split into '' @ numberToString (int 2) @ lit '' notes.'' = lit ''Split into 2 notes.''"
    by code_simp
  have "last (fst (splitNoteByDelimiter ?H ?S)) = Notice (lit ''Split into 0 note.'')
      \<and> length (filter summaryNotice (fst (splitNoteByDelimiter ?H ?S))) = 1
      \<and> created (fst (splitNoteByDelimiter ?H ?S)) = 0"
    using one_summary_notice [OF p d] w by simp
  moreover have "last (fst (splitNoteByDelimiter ?H2 ?S)) = Notice (lit ''Split into 2 notes.'')
      \<and> length (filter summaryNotice (fst (splitNoteByDelimiter ?H2 ?S))) = 1"
    using one_summary_notice [OF p2 d2] w2 two by simp
  ultimately show ?thesis using p p2 v2 by blast
qed

text \<open>
  Without the condition the statement of C10 fails: \<^verbatim>\<open>await this.app.vault.delete(file)\<close> in
  line 142 stands outside every \<^verbatim>\<open>try\<close>. In this run both parts are written, the note is
  to be deleted and the vault rejects the deletion; the run ends there, with no notice.
\<close>

theorem no_summary_when_delete_rejects:
  "prepare (exampleEnv (lit ''A---B'') [] [] (Some (Error (lit ''EBUSY''))))
       (exampleSettings (lit ''---'') True True) = Inr [lit ''A'', lit ''B'']
   \<and> splitNoteByDelimiter (exampleEnv (lit ''A---B'') [] [] (Some (Error (lit ''EBUSY''))))
        (exampleSettings (lit ''---'') True True)
     = ([CachedRead, CreateFolder (lit ''out''), Created (lit ''out/A.md'') (lit ''A''),
         Created (lit ''out/B.md'') (lit ''B''), DeleteFile], Rejected (Error (lit ''EBUSY'')))
   \<and> filter summaryNotice (fst (splitNoteByDelimiter
        (exampleEnv (lit ''A---B'') [] [] (Some (Error (lit ''EBUSY''))))
        (exampleSettings (lit ''---'') True True))) = []"
proof -
  let ?H = "exampleEnv (lit ''A---B'') [] [] (Some (Error (lit ''EBUSY'')))"
  let ?S = "exampleSettings (lit ''---'') True True"
  have p: "prepare ?H ?S = Inr [lit ''A'', lit ''B'']" by code_simp
  have r: "splitNoteByDelimiter ?H ?S
     = ([CachedRead, CreateFolder (lit ''out''), Created (lit ''out/A.md'') (lit ''A''),
         Created (lit ''out/B.md'') (lit ''B''), DeleteFile], Rejected (Error (lit ''EBUSY'')))"
    by code_simp
  show ?thesis unfolding r using p by simp
qed

lemma createNote_first_attempt:
  "\<exists>more. attempts (fst (createNote h st fp i c ([], n)))
      = (filePath h st fp i c, updatedContent st c) # more"
  using createNote_ext [of h st fp i c "[]" n] by auto

text \<open>
  Claim C4, as the code has it. With \<^verbatim>\<open>useContentAsTitle\<close> the file name of a part is the
  result of \<^verbatim>\<open>trimForFileName(escapeInvalidFileNameChars(firstLine), ".md")\<close> and nothing
  else. When that result is empty the name is empty, it is not the name
  \<^verbatim>\<open>split-note-...\<close> of the other mode, and the path handed to \<^verbatim>\<open>vault.create\<close> is
  \<^verbatim>\<open>normalizePath(folderPath + "/.md")\<close>. The first \<^verbatim>\<open>create\<close> call of the iteration goes to
  the path built from that name.
\<close>

theorem title_mode_name_has_no_fallback:
  assumes "useContentAsTitle st"
  shows "fileName h st i c
        = trimForFileName h (escapeInvalidFileNameChars h (firstLine c)) (lit ''.md'')
    \<and> (trimForFileName h (escapeInvalidFileNameChars h (firstLine c)) (lit ''.md'') = []
        \<longrightarrow> fileName h st i c = []
          \<and> fileName h st i c \<noteq> lit ''split-note-'' @ numberToString (dateNow h i + int i)
          \<and> filePath h st fp i c = normalizePath h (fp @ lit ''/.md''))
    \<and> hd (attempts (fst (createNote h st fp i c ([], n)))) = (filePath h st fp i c, updatedContent st c)"
proof -
  have 1: "fileName h st i c
        = trimForFileName h (escapeInvalidFileNameChars h (firstLine c)) (lit ''.md'')"
    using assms by (simp add: fileName_def)
  have "lit ''split-note-'' \<noteq> ([] :: jstring)" by (simp add: lit_def)
  then have 2: "fileName h st i c = []
      \<longrightarrow> fileName h st i c \<noteq> lit ''split-note-'' @ numberToString (dateNow h i + int i)"
    by simp
  have "lit ''/'' @ lit ''.md'' = lit ''/.md''" by (simp add: lit_def)
  then have 3: "fileName h st i c = [] \<longrightarrow> filePath h st fp i c = normalizePath h (fp @ lit ''/.md'')"
    by (simp add: filePath_def)
  have 4: "hd (attempts (fst (createNote h st fp i c ([], n)))) = (filePath h st fp i c, updatedContent st c)"
    using createNote_first_attempt [of h st fp i c n] by auto
  from 1 2 3 4 show ?thesis by simp
qed

theorem title_mode_name_has_no_fallback_witness:
  "useContentAsTitle (exampleSettings (lit ''---'') True False)
   \<and> fileName (exampleEnv (lit ''?---B'') [] [] None) (exampleSettings (lit ''---'') True False) 0 (lit ''?'') = []
   \<and> filePath (exampleEnv (lit ''?---B'') [] [] None) (exampleSettings (lit ''---'') True False)
        (lit ''out'') 0 (lit ''?'') = lit ''out/.md''"
proof -
  let ?H = "exampleEnv (lit ''?---B'') [] [] None"
  let ?S = "exampleSettings (lit ''---'') True False"
  have t: "useContentAsTitle ?S" by (simp add: exampleSettings_def)
  have e: "trimForFileName ?H (escapeInvalidFileNameChars ?H (firstLine (lit ''?''))) (lit ''.md'') = []"
    by code_simp
  have n: "normalizePath ?H (lit ''out'' @ lit ''/.md'') = lit ''out/.md''" by code_simp
  show ?thesis
    using title_mode_name_has_no_fallback [OF t, of ?H 0 "lit ''?''" "lit ''out''" 0] t e n
    by simp
qed

text \<open>
  The fallback that C4 describes does not exist. With the helpers as the specification
  describes them, the first line \<^verbatim>\<open>?\<close> is stripped to the empty string, and the note
  \<^verbatim>\<open>?---B\<close> is split into the files \<^verbatim>\<open>out/.md\<close> and \<^verbatim>\<open>out/B.md\<close>.
\<close>

theorem empty_title_is_not_replaced:
  "splitContent (lit ''?---B'') (lit ''---'') = [lit ''?'', lit ''B'']
   \<and> trimForFileName (exampleEnv (lit ''?---B'') [] [] None)
        (escapeInvalidFileNameChars (exampleEnv (lit ''?---B'') [] [] None) (firstLine (lit ''?'')))
        (lit ''.md'') = []
   \<and> fileName (exampleEnv (lit ''?---B'') [] [] None) (exampleSettings (lit ''---'') True False) 0 (lit ''?'')
       \<noteq> lit ''split-note-'' @ numberToString (dateNow (exampleEnv (lit ''?---B'') [] [] None) 0 + int 0)
   \<and> fst (splitNoteByDelimiter (exampleEnv (lit ''?---B'') [] [] None)
        (exampleSettings (lit ''---'') True False))
     = [CachedRead, CreateFolder (lit ''out''), Created (lit ''out/.md'') (lit ''?''),
        Created (lit ''out/B.md'') (lit ''B''), Notice (lit ''Split into 2 notes.'')]"
  by code_simp

end
